theory Spec2Isabelle
  imports Main "HOL-Library.Sublist"
begin

section \<open>Strings\<close>

text \<open>
  A Python \<open>str\<close> is modelled as a \<open>string\<close>. A \<open>char\<close> stands for one code point in
  the range U+0000 .. U+00FF, so \<open>length\<close> counts what Python's \<open>len\<close> counts on
  such strings. The character predicates below are the restrictions of Python's
  \<open>str.lower\<close>, \<open>str.isspace\<close> and the \<open>re\<close> classes to that range.
\<close>

definition lower_char :: "char \<Rightarrow> char" where
  "lower_char c =
     (let n = (of_char c :: nat)
      in if (65 \<le> n \<and> n \<le> 90) \<or> (192 \<le> n \<and> n \<le> 214) \<or> (216 \<le> n \<and> n \<le> 222)
         then char_of (n + 32) else c)"

definition lower :: "string \<Rightarrow> string" where
  "lower s = map lower_char s"

definition is_space :: "char \<Rightarrow> bool" where
  "is_space c =
     (let n = (of_char c :: nat)
      in (9 \<le> n \<and> n \<le> 13) \<or> (28 \<le> n \<and> n \<le> 32) \<or> n = 133 \<or> n = 160)"

definition is_digit :: "char \<Rightarrow> bool" where
  "is_digit c = (let n = (of_char c :: nat) in 48 \<le> n \<and> n \<le> 57)"

text \<open>\<open>s.strip()\<close>: whitespace removed at both ends.\<close>

definition strip :: "string \<Rightarrow> string" where
  "strip s = rev (dropWhile is_space (rev (dropWhile is_space s)))"

text \<open>\<open>s.split('\n')\<close>: the pieces between line feeds; never an empty list.\<close>

fun split_lines :: "string \<Rightarrow> string list" where
  "split_lines [] = [[]]"
| "split_lines (c # cs) =
     (if c = CHR ''\<newline>'' then [] # split_lines cs
      else (case split_lines cs of
              [] \<Rightarrow> [[c]]
            | l # ls \<Rightarrow> (c # l) # ls))"

text \<open>\<open>a in s\<close> on strings is \<^const>\<open>sublist\<close>; \<open>any(w in s for w in ws)\<close>:\<close>

definition any_in :: "string list \<Rightarrow> string \<Rightarrow> bool" where
  "any_in ws s = list_ex (\<lambda>w. sublist w s) ws"

section \<open>Regular expressions\<close>

text \<open>
  The fragment of Python's \<open>re\<close> syntax that the patterns of \<open>backend.py\<close> use:
  single-character items, sequencing, an optional group, and greedy or lazy
  repetition of a single-character item.
\<close>

datatype atom =
    Lit char              \<comment> \<open>a literal character\<close>
  | Dot                   \<comment> \<open>\<open>.\<close>: anything but a line feed\<close>
  | Digit                 \<comment> \<open>\<open>\d\<close>\<close>
  | Space                 \<comment> \<open>\<open>\s\<close>\<close>
  | OneOf string          \<comment> \<open>\<open>[...]\<close>\<close>
  | NoneOf string         \<comment> \<open>\<open>[^...]\<close>\<close>

datatype regex =
    Eps
  | Atom atom
  | Seq regex regex
  | Opt regex             \<comment> \<open>\<open>r?\<close> and \<open>(r)?\<close>, greedy\<close>
  | Star atom             \<comment> \<open>\<open>a*\<close>, greedy\<close>
  | LazyStar atom         \<comment> \<open>\<open>a*?\<close>\<close>
  | UpTo nat atom         \<comment> \<open>\<open>a{0,n}\<close>, greedy\<close>

definition Plus :: "atom \<Rightarrow> regex" where
  "Plus a = Seq (Atom a) (Star a)"

fun lits :: "string \<Rightarrow> regex" where
  "lits [] = Eps"
| "lits (c # cs) = Seq (Atom (Lit c)) (lits cs)"

fun seqs :: "regex list \<Rightarrow> regex" where
  "seqs [] = Eps"
| "seqs (r # rs) = Seq r (seqs rs)"

text \<open>
  Whether one character matches an item; \<open>ic\<close> is the flag \<open>re.IGNORECASE\<close>, under
  which characters are compared after lowering.
\<close>

fun atom_match :: "bool \<Rightarrow> atom \<Rightarrow> char \<Rightarrow> bool" where
  "atom_match ic (Lit x) c = (if ic then lower_char c = lower_char x else c = x)"
| "atom_match ic Dot c = (c \<noteq> CHR ''\<newline>'')"
| "atom_match ic Digit c = is_digit c"
| "atom_match ic Space c = is_space c"
| "atom_match ic (OneOf xs) c =
     (if ic then lower_char c \<in> set (map lower_char xs) else c \<in> set xs)"
| "atom_match ic (NoneOf xs) c =
     (if ic then lower_char c \<notin> set (map lower_char xs) else c \<notin> set xs)"

text \<open>
  The backtracking matcher, as a list of successes: every way the pattern can match a
  prefix of the input, given by the rest of the input after the match, in the order in
  which the engine tries them (a greedy item tries the longer match first, a lazy one the
  shorter). The engine's match is the first entry.
\<close>

fun star_greedy :: "bool \<Rightarrow> atom \<Rightarrow> string \<Rightarrow> string list" where
  "star_greedy ic a [] = [[]]"
| "star_greedy ic a (c # cs) =
     (if atom_match ic a c then star_greedy ic a cs else []) @ [c # cs]"

fun star_lazy :: "bool \<Rightarrow> atom \<Rightarrow> string \<Rightarrow> string list" where
  "star_lazy ic a [] = [[]]"
| "star_lazy ic a (c # cs) =
     (c # cs) # (if atom_match ic a c then star_lazy ic a cs else [])"

fun upto_greedy :: "bool \<Rightarrow> atom \<Rightarrow> nat \<Rightarrow> string \<Rightarrow> string list" where
  "upto_greedy ic a 0 s = [s]"
| "upto_greedy ic a (Suc n) [] = [[]]"
| "upto_greedy ic a (Suc n) (c # cs) =
     (if atom_match ic a c then upto_greedy ic a n cs else []) @ [c # cs]"

fun matches :: "bool \<Rightarrow> regex \<Rightarrow> string \<Rightarrow> string list" where
  "matches ic Eps s = [s]"
| "matches ic (Atom a) s =
     (case s of [] \<Rightarrow> [] | c # cs \<Rightarrow> if atom_match ic a c then [cs] else [])"
| "matches ic (Seq r1 r2) s = concat (map (matches ic r2) (matches ic r1 s))"
| "matches ic (Opt r) s = matches ic r s @ [s]"
| "matches ic (Star a) s = star_greedy ic a s"
| "matches ic (LazyStar a) s = star_lazy ic a s"
| "matches ic (UpTo n a) s = upto_greedy ic a n s"

text \<open>
  \<open>re_match\<close>: the rest of the input after the engine's match at the start of \<open>s\<close>,
  for a match that consumes at least one character. No pattern of \<open>backend.py\<close> can
  match the empty string (each contains a literal or a \<open>+\<close>), so empty matches are left
  out of \<open>re.sub\<close> and \<open>re.split\<close> below.
\<close>

definition re_match :: "bool \<Rightarrow> regex \<Rightarrow> string \<Rightarrow> string option" where
  "re_match ic r s =
     (case matches ic r s of
        [] \<Rightarrow> None
      | t # _ \<Rightarrow> if length t < length s then Some t else None)"

text \<open>\<open>re.sub(pattern, repl, s)\<close>: leftmost non-overlapping matches replaced by \<open>repl\<close>.\<close>

function re_sub :: "bool \<Rightarrow> regex \<Rightarrow> string \<Rightarrow> string \<Rightarrow> string" where
  "re_sub ic r repl [] = []"
| "re_sub ic r repl (c # cs) =
     (case re_match ic r (c # cs) of
        None \<Rightarrow> c # re_sub ic r repl cs
      | Some t \<Rightarrow>
          if length t < length (c # cs) then repl @ re_sub ic r repl t
          else c # re_sub ic r repl cs)"
  by pat_completeness auto
termination
  by (relation "measure (\<lambda>(ic, r, repl, s). length s)") auto

text \<open>\<open>re.split(pattern, s)\<close>; \<open>acc\<close> is the current piece, reversed.\<close>

function re_split_from :: "bool \<Rightarrow> regex \<Rightarrow> string \<Rightarrow> string \<Rightarrow> string list" where
  "re_split_from ic r acc [] = [rev acc]"
| "re_split_from ic r acc (c # cs) =
     (case re_match ic r (c # cs) of
        None \<Rightarrow> re_split_from ic r (c # acc) cs
      | Some t \<Rightarrow>
          if length t < length (c # cs) then rev acc # re_split_from ic r [] t
          else re_split_from ic r (c # acc) cs)"
  by pat_completeness auto
termination
  by (relation "measure (\<lambda>(ic, r, acc, s). length s)") auto

definition re_split :: "bool \<Rightarrow> regex \<Rightarrow> string \<Rightarrow> string list" where
  "re_split ic r s = re_split_from ic r [] s"

section \<open>Content cleaning\<close>

text \<open>\<open>ARTIFACT_PATTERNS\<close>, in the order of the source.\<close>

definition ARTIFACT_PATTERNS :: "regex list" where
  "ARTIFACT_PATTERNS =
    [ seqs [lits ''No hashtags'', Star (Lit CHR ''.'')],
      seqs [lits ''Include'', LazyStar Dot, lits '':''],
      seqs [lits ''Use '', Opt (seqs [lits ''at least '', Plus Digit, lits '' '']),
            lits ''emoji'', Opt (Atom (Lit CHR ''s''))],
      lits ''Use internet slang'',
      lits ''Use sarcasm'',
      lits ''Story:'',
      lits ''The story must be'',
      lits ''No passive voice'',
      lits ''Keep it under'',
      lits ''Write a short comment'',
      seqs [lits ''as '', UpTo 30 Dot, lits ''.''],
      seqs [lits ''Be '', UpTo 30 Dot, lits ''.''] ]"

definition bracketed :: regex where
  "bracketed = seqs [lits ''['', Plus (NoneOf '']''), lits '']'']"

definition paren_instructions :: regex where
  "paren_instructions =
     seqs [lits ''('', Star (NoneOf '')''), lits ''instructions'',
           Star (NoneOf '')''), lits '')'']"

definition whitespace_run :: regex where
  "whitespace_run = Plus Space"

definition sentence_end :: regex where
  "sentence_end = Plus (OneOf ''.!?'')"

definition instruction_words :: "string list" where
  "instruction_words = [''include'', ''use at least'', ''write a'', ''post:'']"

text \<open>The \<open>for pattern in ARTIFACT_PATTERNS\<close> loop of \<open>clean_content\<close>.\<close>

fun remove_patterns :: "regex list \<Rightarrow> string \<Rightarrow> string" where
  "remove_patterns [] text = text"
| "remove_patterns (p # ps) text = remove_patterns ps (re_sub True p [] text)"

text \<open>
  \<open>clean_content\<close>, statement by statement: \<open>t1\<close> after the pattern loop, \<open>t2\<close> and
  \<open>t3\<close> after the two bracket removals, \<open>t4\<close> after whitespace is collapsed and
  stripped, \<open>t5\<close> after the first-sentence step, \<open>t6\<close> after the first-line step.
\<close>

definition first_sentence :: "string \<Rightarrow> string" where
  "first_sentence text =
     (let sentences = re_split False sentence_end text
      in if sentences \<noteq> [] \<and> length (hd sentences) > 20
         then hd sentences @ ''.'' else text)"

definition long_lines :: "string \<Rightarrow> string list" where
  "long_lines original =
     map strip (filter (\<lambda>l. strip l \<noteq> [] \<and> length l > 20) (split_lines original))"

definition first_line :: "string \<Rightarrow> string \<Rightarrow> string" where
  "first_line original text =
     (if any_in instruction_words (lower text)
      then (let lines = long_lines original
            in if lines \<noteq> [] then hd lines else text)
      else text)"

definition normalise :: "string \<Rightarrow> string" where
  "normalise text =
     (let t1 = remove_patterns ARTIFACT_PATTERNS text;
          t2 = re_sub False bracketed [] t1;
          t3 = re_sub True paren_instructions [] t2
      in strip (re_sub False whitespace_run '' '' t3))"

definition clean_content :: "string \<Rightarrow> string" where
  "clean_content text =
     (let original = text;
          t4 = normalise text;
          t5 = first_sentence t4;
          t6 = first_line original t5
      in strip t6)"

section \<open>Model manager\<close>

datatype error =
    GenerationError     \<comment> \<open>the model call raised\<close>
  | IndexError
  | ZeroDivisionError
  | NameError
  | RuntimeError        \<comment> \<open>\<open>submit\<close> on an executor that was shut down\<close>

text \<open>
  A loaded model. What \<open>model.generate\<close> followed by \<open>tokenizer.decode\<close> yields is
  not determined by the arguments (it samples, and it may raise), so a model is a
  function of the prompt, of \<open>max_tokens\<close> and of the attempt on which it is called,
  that either raises or returns the decoded continuation. The temperature is a constant
  of each caller and is left out.
\<close>

type_synonym model = "string \<Rightarrow> nat \<Rightarrow> nat \<Rightarrow> error + string"

record model_manager =
  models :: "model list"

text \<open>
  \<open>DualModelManager.generate\<close>; \<open>self.models[model_id]\<close> raises out of range. The lock
  is held around the call and released on every exit (see the section on locking).
\<close>

definition generate :: "model_manager \<Rightarrow> string \<Rightarrow> nat \<Rightarrow> nat \<Rightarrow> nat \<Rightarrow> error + string" where
  "generate self prompt max_tokens model_id attempt =
     (if model_id < length (models self)
      then (models self ! model_id) prompt max_tokens attempt
      else Inl IndexError)"

section \<open>Post and comment generation\<close>

definition MAX_POST_LEN :: nat where
  "MAX_POST_LEN = 750"

definition MAX_COMMENT_LEN :: nat where
  "MAX_COMMENT_LEN = 750"

record persona =
  name :: string
  style :: string

definition post_prompt :: "string \<Rightarrow> string" where
  \<open>post_prompt topic =
     ''<|im_start|>system\<newline>'' @
     ''You are a social media user. Write a natural post about "'' @ topic @ ''".\<newline>'' @
     ''Rules:\<newline>'' @
     ''- Write in your own voice, with personal opinion\<newline>'' @
     ''- Keep it conversational\<newline>'' @
     ''- Do NOT include instructions or meta-commentary\<newline>'' @
     ''- Do NOT mention "No hashtags" or any rules\<newline>'' @
     ''- Just write the post content\<newline>'' @
     ''<|im_end|>\<newline>'' @
     ''<|im_start|>user\<newline>'' @
     ''Write a post about: '' @ topic @ ''\<newline>'' @
     ''<|im_end|>\<newline>'' @
     ''<|im_start|>assistant\<newline>''\<close>

definition comment_prompt :: "string \<Rightarrow> persona \<Rightarrow> string" where
  \<open>comment_prompt post_content p =
     ''<|im_start|>system\<newline>'' @
     ''You are '' @ name p @ ''. Your communication style: '' @ style p @ ''\<newline>'' @
     ''Rules:\<newline>'' @
     ''- Respond naturally to the post\<newline>'' @
     ''- Do NOT include instructions or meta-commentary\<newline>'' @
     ''- Do NOT mention "No hashtags" or any rules\<newline>'' @
     ''- Just write the comment content\<newline>'' @
     ''<|im_end|>\<newline>'' @
     ''<|im_start|>user\<newline>'' @
     ''Post: "'' @ post_content @ ''"\<newline>'' @
     ''Write a natural comment as '' @ name p @ ''.\<newline>'' @
     ''<|im_end|>\<newline>'' @
     ''<|im_start|>assistant\<newline>''\<close>

text \<open>The condition of the \<open>if\<close> inside each retry loop.\<close>

definition post_artifacts :: "string list" where
  "post_artifacts = [''no hashtags'', ''include'', ''use at least'', ''write a comment'', ''post:'']"

definition comment_artifacts :: "string list" where
  "comment_artifacts = [''include'', ''use'', ''write a comment'']"

definition post_acceptable :: "string \<Rightarrow> bool" where
  "post_acceptable cleaned =
     (cleaned \<noteq> [] \<and> length cleaned > 30 \<and> \<not> any_in post_artifacts (lower cleaned))"

definition comment_acceptable :: "string \<Rightarrow> bool" where
  "comment_acceptable cleaned =
     (cleaned \<noteq> [] \<and> length cleaned > 15 \<and> \<not> any_in comment_artifacts (lower cleaned))"

definition post_fallback :: "string \<Rightarrow> string" where
  "post_fallback topic = ''I've been thinking about '' @ topic @ '' lately...''"

definition comment_fallback :: string where
  "comment_fallback = ''Interesting post!''"

text \<open>
  The \<open>for attempt in range(2)\<close> loop of \<open>generate_post_content\<close> together with the
  \<open>return\<close> after it. \<open>cleaned\<close> is the loop's variable of that name: \<open>None\<close> while it
  is unbound, afterwards the cleaned text of the latest attempt. An exception of
  \<open>model_manager.generate\<close> is not caught here.
\<close>

fun post_attempts ::
  "model_manager \<Rightarrow> string \<Rightarrow> string \<Rightarrow> nat \<Rightarrow> nat list \<Rightarrow> string option \<Rightarrow> error + string"
where
  "post_attempts mm topic prompt model_id [] cleaned =
     (case cleaned of
        None \<Rightarrow> Inl NameError
      | Some c \<Rightarrow> Inr (if c \<noteq> [] then take MAX_POST_LEN c else post_fallback topic))"
| "post_attempts mm topic prompt model_id (attempt # rest) cleaned =
     (case generate mm prompt 400 model_id attempt of
        Inl e \<Rightarrow> Inl e
      | Inr raw \<Rightarrow>
          (let cleaned = clean_content raw
           in if post_acceptable cleaned then Inr (take MAX_POST_LEN cleaned)
              else post_attempts mm topic prompt model_id rest (Some cleaned)))"

definition generate_post_content :: "model_manager \<Rightarrow> string \<Rightarrow> nat \<Rightarrow> error + string" where
  "generate_post_content mm topic model_id =
     post_attempts mm topic (post_prompt topic) model_id [0, 1] None"

fun comment_attempts ::
  "model_manager \<Rightarrow> string \<Rightarrow> nat \<Rightarrow> nat list \<Rightarrow> string option \<Rightarrow> error + string"
where
  "comment_attempts mm prompt model_id [] cleaned =
     (case cleaned of
        None \<Rightarrow> Inl NameError
      | Some c \<Rightarrow> Inr (if c \<noteq> [] then take MAX_COMMENT_LEN c else comment_fallback))"
| "comment_attempts mm prompt model_id (attempt # rest) cleaned =
     (case generate mm prompt 200 model_id attempt of
        Inl e \<Rightarrow> Inl e
      | Inr raw \<Rightarrow>
          (let cleaned = clean_content raw
           in if comment_acceptable cleaned then Inr (take MAX_COMMENT_LEN cleaned)
              else comment_attempts mm prompt model_id rest (Some cleaned)))"

definition generate_comment_content ::
  "model_manager \<Rightarrow> string \<Rightarrow> persona \<Rightarrow> nat \<Rightarrow> error + string" where
  "generate_comment_content mm post_content p model_id =
     comment_attempts mm (comment_prompt post_content p) model_id [0, 1] None"

section \<open>Database\<close>

text \<open>
  The two tables as lists of rows in insertion order; \<open>created_at\<close> is left out. The
  \<open>AUTOINCREMENT\<close> keys are kept as counters.
\<close>

record post_row =
  post_row_id :: int
  post_row_content :: string
  post_row_author :: string
  is_ai_generated :: bool

record comment_row =
  comment_row_id :: int
  comment_post_id :: int
  comment_content :: string
  comment_author :: string

record database =
  posts :: "post_row list"
  comments :: "comment_row list"
  last_post_id :: int
  last_comment_id :: int

definition add_post :: "database \<Rightarrow> string \<Rightarrow> string \<Rightarrow> bool \<Rightarrow> int \<times> database" where
  "add_post db content author is_ai =
     (let rowid = last_post_id db + 1;
          row = \<lparr>post_row_id = rowid, post_row_content = take MAX_POST_LEN content,
                 post_row_author = author, is_ai_generated = is_ai\<rparr>
      in (rowid, db\<lparr>posts := posts db @ [row], last_post_id := rowid\<rparr>))"

definition add_comment :: "database \<Rightarrow> int \<Rightarrow> string \<Rightarrow> string \<Rightarrow> database" where
  "add_comment db post_id content author =
     (let rowid = last_comment_id db + 1;
          row = \<lparr>comment_row_id = rowid, comment_post_id = post_id,
                 comment_content = take MAX_COMMENT_LEN content, comment_author = author\<rparr>
      in db\<lparr>comments := comments db @ [row], last_comment_id := rowid\<rparr>)"

section \<open>Parallel comment generator\<close>

text \<open>
  A task is the keyword arguments of one \<open>executor.submit\<close> call. The executor is the
  list of the tasks submitted so far and its shutdown flag; the future that \<open>submit\<close>
  returns is the position of the task in that list.
\<close>

record task =
  task_post_id :: int
  task_post_content :: string
  task_persona :: persona
  task_device_id :: nat

record executor =
  submitted :: "task list"
  is_shutdown :: bool

type_synonym future = nat

definition submit :: "executor \<Rightarrow> task \<Rightarrow> error + (future \<times> executor)" where
  "submit ex t =
     (if is_shutdown ex then Inl RuntimeError
      else Inr (length (submitted ex), ex\<lparr>submitted := submitted ex @ [t]\<rparr>))"

record parallel_comment_generator =
  pcg_model_manager :: model_manager
  pcg_personas :: "persona list"       \<comment> \<open>\<open>self.persona_manager.get_all()\<close>\<close>
  pcg_db :: database
  pcg_executor :: executor

text \<open>The \<open>for i, persona in enumerate(active_personas)\<close> loop.\<close>

fun submit_loop ::
  "model_manager \<Rightarrow> int \<Rightarrow> string \<Rightarrow> (nat \<times> persona) list \<Rightarrow> executor \<Rightarrow> future list
     \<Rightarrow> error + (future list \<times> executor)"
where
  "submit_loop mm post_id post_content [] ex futures = Inr (futures, ex)"
| "submit_loop mm post_id post_content ((i, p) # rest) ex futures =
     (if length (models mm) = 0 then Inl ZeroDivisionError
      else
        (let device_id = i mod length (models mm)
         in case submit ex \<lparr>task_post_id = post_id, task_post_content = post_content,
                             task_persona = p, task_device_id = device_id\<rparr> of
              Inl e \<Rightarrow> Inl e
            | Inr (future, ex') \<Rightarrow>
                submit_loop mm post_id post_content rest ex' (futures @ [future])))"

definition submit_post_comments ::
  "parallel_comment_generator \<Rightarrow> int \<Rightarrow> string
     \<Rightarrow> error + (future list \<times> parallel_comment_generator)" where
  "submit_post_comments self post_id post_content =
     (let active_personas = pcg_personas self
      in case submit_loop (pcg_model_manager self) post_id post_content
                (enumerate 0 active_personas) (pcg_executor self) [] of
           Inl e \<Rightarrow> Inl e
         | Inr (futures, ex') \<Rightarrow> Inr (futures, self\<lparr>pcg_executor := ex'\<rparr>))"

text \<open>
  \<open>_generate_single_comment\<close>: the body of one task. The \<open>try\<close> catches every
  exception of the generation; the database is then left as it was.
\<close>

definition generate_single_comment ::
  "model_manager \<Rightarrow> database \<Rightarrow> int \<Rightarrow> string \<Rightarrow> persona \<Rightarrow> nat \<Rightarrow> database" where
  "generate_single_comment mm db post_id post_content p device_id =
     (case generate_comment_content mm post_content p device_id of
        Inl e \<Rightarrow> db
      | Inr comment \<Rightarrow> add_comment db post_id comment (name p))"

section \<open>Searching and normal forms\<close>

text \<open>\<open>re.search(pattern, s) is not None\<close>, for matches of at least one character.\<close>

fun re_search :: "bool \<Rightarrow> regex \<Rightarrow> string \<Rightarrow> bool" where
  "re_search ic r [] = False"
| "re_search ic r (c # cs) = (re_match ic r (c # cs) \<noteq> None \<or> re_search ic r cs)"

text \<open>No removal pattern of \<open>clean_content\<close> matches anywhere in \<open>s\<close>.\<close>

definition pattern_free :: "string \<Rightarrow> bool" where
  "pattern_free s =
     (list_all (\<lambda>p. \<not> re_search True p s) ARTIFACT_PATTERNS \<and>
      \<not> re_search False bracketed s \<and> \<not> re_search True paren_instructions s)"

text \<open>
  Whether \<open>clean_content\<close> replaces the text by the first long line of the original:
  the condition of its last \<open>if\<close> holds and \<open>lines\<close> is not empty.
\<close>

definition took_first_line :: "string \<Rightarrow> bool" where
  "took_first_line original =
     (any_in instruction_words (lower (first_sentence (normalise original))) \<and>
      long_lines original \<noteq> [])"

text \<open>
  Every whitespace character is a space that is not followed by whitespace; no whitespace
  at either end; both together.
\<close>

fun single_spaced :: "string \<Rightarrow> bool" where
  "single_spaced [] = True"
| "single_spaced [c] = (is_space c \<longrightarrow> c = CHR '' '')"
| "single_spaced (c # d # cs) =
     ((is_space c \<longrightarrow> c = CHR '' '' \<and> \<not> is_space d) \<and> single_spaced (d # cs))"

definition stripped :: "string \<Rightarrow> bool" where
  "stripped s = (s = [] \<or> (\<not> is_space (hd s) \<and> \<not> is_space (last s)))"

definition normalised :: "string \<Rightarrow> bool" where
  "normalised s = (single_spaced s \<and> stripped s)"

text \<open>A character that does not end a sentence for \<open>[.!?]+\<close>.\<close>

definition sentence_char :: "char \<Rightarrow> bool" where
  "sentence_char c = (c \<notin> set ''.!?'')"

text \<open>Whether a pattern can match the empty string.\<close>

fun nullable :: "regex \<Rightarrow> bool" where
  "nullable Eps = True"
| "nullable (Atom a) = False"
| "nullable (Seq r1 r2) = (nullable r1 \<and> nullable r2)"
| "nullable (Opt r) = True"
| "nullable (Star a) = True"
| "nullable (LazyStar a) = True"
| "nullable (UpTo n a) = True"

section \<open>Locking\<close>

text \<open>
  The threads that call \<open>DualModelManager.generate\<close>, at the grain of its lock
  operations. A thread calls with some \<open>model_id\<close> in range (out of range, the lookup
  \<open>self.locks[model_id]\<close> raises before any lock is touched), waits at
  \<open>with lock:\<close>, enters the block when \<open>self.locks[model_id]\<close> is free and takes it in
  the same step, and leaves the block, by \<open>return\<close> or by an exception, releasing the
  lock. Any thread may call again, with any \<open>model_id\<close>. The steps of different threads
  interleave in any order.
\<close>

datatype call_state =
    Idle                \<comment> \<open>not inside \<open>generate\<close>\<close>
  | Waiting nat         \<comment> \<open>at \<open>with lock:\<close> for the lock of this \<open>model_id\<close>\<close>
  | Running nat         \<comment> \<open>inside the \<open>with\<close> block, holding that lock\<close>

record system =
  locks :: "bool list"            \<comment> \<open>\<open>self.locks\<close>: whether each lock is held\<close>
  threads :: "call_state list"

text \<open>\<open>n\<close> models with their locks free, and \<open>k\<close> threads outside \<open>generate\<close>.\<close>

definition initial :: "nat \<Rightarrow> nat \<Rightarrow> system" where
  "initial n k = \<lparr>locks = replicate n False, threads = replicate k Idle\<rparr>"

inductive step :: "system \<Rightarrow> system \<Rightarrow> bool" where
  call:
    "t < length (threads s) \<Longrightarrow> threads s ! t = Idle \<Longrightarrow> model_id < length (locks s) \<Longrightarrow>
       step s (s\<lparr>threads := (threads s)[t := Waiting model_id]\<rparr>)"
| acquire:
    "t < length (threads s) \<Longrightarrow> threads s ! t = Waiting model_id \<Longrightarrow>
       model_id < length (locks s) \<Longrightarrow> \<not> locks s ! model_id \<Longrightarrow>
       step s (s\<lparr>locks := (locks s)[model_id := True],
                 threads := (threads s)[t := Running model_id]\<rparr>)"
| release:
    "t < length (threads s) \<Longrightarrow> threads s ! t = Running model_id \<Longrightarrow>
       step s (s\<lparr>locks := (locks s)[model_id := False],
                 threads := (threads s)[t := Idle]\<rparr>)"

inductive reachable :: "nat \<Rightarrow> nat \<Rightarrow> system \<Rightarrow> bool" where
  reach_start: "reachable n k (initial n k)"
| reach_step: "reachable n k s \<Longrightarrow> step s s' \<Longrightarrow> reachable n k s'"

text \<open>The number of threads inside the \<open>with\<close> block of a model.\<close>

definition in_flight :: "system \<Rightarrow> nat \<Rightarrow> nat" where
  "in_flight s model_id = count_list (threads s) (Running model_id)"

definition lock_invariant :: "system \<Rightarrow> bool" where
  "lock_invariant s =
     (\<forall>m. in_flight s m = (if m < length (locks s) \<and> locks s ! m then 1 else 0))"

text \<open>Two states of concrete runs.\<close>

definition both_running :: system where
  "both_running = \<lparr>locks = [True, True], threads = [Running 0, Running 1]\<rparr>"

definition contended :: system where
  "contended = \<lparr>locks = [True, False], threads = [Running 0, Waiting 0, Waiting 0]\<rparr>"

section \<open>Concrete models and inputs\<close>

text \<open>
  Models for concrete runs: one whose every call raises, and one that returns the given
  texts on its successive attempts.
\<close>

definition failing_model :: model where
  "failing_model prompt max_tokens attempt = Inl GenerationError"

definition scripted_model :: "string list \<Rightarrow> model" where
  "scripted_model outs prompt max_tokens attempt =
     (if attempt < length outs then Inr (outs ! attempt) else Inl GenerationError)"

definition failing_manager :: model_manager where
  "failing_manager = \<lparr>models = [failing_model, failing_model]\<rparr>"

definition scripted_manager :: "string list \<Rightarrow> model_manager" where
  "scripted_manager outs = \<lparr>models = [scripted_model outs, scripted_model outs]\<rparr>"

definition alex :: persona where
  "alex = \<lparr>name = ''Alex Tech'', style = ''Technical expert, precise, uses jargon naturally''\<rparr>"

definition default_personas :: "persona list" where
  "default_personas =
     [\<lparr>name = ''Alex Tech'', style = ''Technical expert, precise, uses jargon naturally''\<rparr>,
      \<lparr>name = ''Sam Casual'', style = ''Friendly, uses emojis naturally, conversational''\<rparr>,
      \<lparr>name = ''Dr. Morgan'', style = ''Academic tone, analytical, cites studies naturally''\<rparr>,
      \<lparr>name = ''Charlie'', style = ''Sarcastic internet troll, uses slang, contrarian''\<rparr>]"

definition empty_db :: database where
  "empty_db = \<lparr>posts = [], comments = [], last_post_id = 0, last_comment_id = 0\<rparr>"

definition demo_generator :: parallel_comment_generator where
  "demo_generator =
     \<lparr>pcg_model_manager = failing_manager, pcg_personas = default_personas,
      pcg_db = empty_db, pcg_executor = \<lparr>submitted = [], is_shutdown = False\<rparr>\<rparr>"

text \<open>The task that the loop submits for the persona \<open>snd ip\<close> at ordinal \<open>fst ip\<close>, with \<open>r\<close> models.\<close>

definition make_task :: "int \<Rightarrow> string \<Rightarrow> nat \<Rightarrow> nat \<times> persona \<Rightarrow> task" where
  "make_task post_id post_content r ip =
     \<lparr>task_post_id = post_id, task_post_content = post_content,
      task_persona = snd ip, task_device_id = fst ip mod r\<rparr>"

section \<open>Evaluation of the character functions\<close>

text \<open>The character functions on the bits of a character, for evaluation.\<close>

lemma lower_char_code [code]:
  "lower_char (Char b0 b1 b2 b3 b4 b5 b6 b7) =
     (if b6 \<and> \<not> b5 \<and>
         (if b7 then \<not> (b0 \<and> b1 \<and> b2 \<and> b4)
          else (b0 \<or> b1 \<or> b2 \<or> b3 \<or> b4) \<and> \<not> (b4 \<and> b3 \<and> (b2 \<or> (b1 \<and> b0))))
      then Char b0 b1 b2 b3 b4 True b6 b7
      else Char b0 b1 b2 b3 b4 b5 b6 b7)"
  by (cases b0; cases b1; cases b2; cases b3; cases b4; cases b5; cases b6; cases b7;
      simp add: lower_char_def char_of_eq_iff)

lemma is_space_code [code]:
  "is_space (Char b0 b1 b2 b3 b4 b5 b6 b7) =
     (if b7 then \<not> b6 \<and> \<not> b4 \<and> \<not> b3 \<and> \<not> b1 \<and> (b5 \<and> \<not> b2 \<and> \<not> b0 \<or> \<not> b5 \<and> b2 \<and> b0)
      else \<not> b6 \<and> (if b5 then \<not> b4 \<and> \<not> b3 \<and> \<not> b2 \<and> \<not> b1 \<and> \<not> b0
                  else if b4 then b3 \<and> b2
                  else b3 \<and> (b0 \<or> b1 \<or> b2) \<and> \<not> (b2 \<and> b1)))"
  by (cases b0; cases b1; cases b2; cases b3; cases b4; cases b5; cases b6; cases b7;
      simp add: is_space_def)

lemma is_digit_code [code]:
  "is_digit (Char b0 b1 b2 b3 b4 b5 b6 b7) =
     (\<not> b7 \<and> \<not> b6 \<and> b5 \<and> b4 \<and> (\<not> b3 \<or> (\<not> b2 \<and> \<not> b1)))"
  by (cases b0; cases b1; cases b2; cases b3; cases b4; cases b5; cases b6; cases b7;
      simp add: is_digit_def)

section \<open>The matcher\<close>

text \<open>
  A match never grows the input, and a pattern that is not nullable consumes at least one
  character. None of the patterns of the source is nullable, so \<open>re_match\<close> is the
  first entry of \<open>matches\<close> for each of them.
\<close>

lemma star_greedy_length: "t \<in> set (star_greedy ic a s) \<Longrightarrow> length t \<le> length s"
  by (induction s) (auto split: if_splits simp add: le_SucI)

lemma star_lazy_length: "t \<in> set (star_lazy ic a s) \<Longrightarrow> length t \<le> length s"
  by (induction s) (auto split: if_splits simp add: le_SucI)

lemma upto_greedy_length: "t \<in> set (upto_greedy ic a n s) \<Longrightarrow> length t \<le> length s"
  by (induction ic a n s rule: upto_greedy.induct) (auto split: if_splits simp add: le_SucI)

lemma matches_length_le: "t \<in> set (matches ic r s) \<Longrightarrow> length t \<le> length s"
proof (induction r arbitrary: s t)
  case (Atom a)
  then show ?case by (cases s) (auto split: if_splits)
next
  case (Seq r1 r2)
  then obtain u where "u \<in> set (matches ic r1 s)" and "t \<in> set (matches ic r2 u)"
    by auto
  with Seq.IH [of u s] Seq.IH(2) [of t u] show ?case by simp
next
  case (Opt r)
  then show ?case by auto
qed (auto dest: star_greedy_length star_lazy_length upto_greedy_length)

lemma matches_length_less:
  "\<not> nullable r \<Longrightarrow> t \<in> set (matches ic r s) \<Longrightarrow> length t < length s"
proof (induction r arbitrary: s t)
  case (Atom a)
  then show ?case by (cases s) (auto split: if_splits)
next
  case (Seq r1 r2)
  from Seq.prems(2) obtain u where u: "u \<in> set (matches ic r1 s)"
    and t: "t \<in> set (matches ic r2 u)"
    by auto
  from Seq.prems(1) consider "\<not> nullable r1" | "\<not> nullable r2" by auto
  then show ?case
  proof cases
    case 1
    with Seq.IH(1) u have "length u < length s" by blast
    with matches_length_le [OF t] show ?thesis by simp
  next
    case 2
    with Seq.IH(2) t have "length t < length u" by blast
    with matches_length_le [OF u] show ?thesis by simp
  qed
qed simp_all

lemma source_patterns_not_nullable:
  "list_all (\<lambda>p. \<not> nullable p)
     (ARTIFACT_PATTERNS @ [bracketed, paren_instructions, whitespace_run, sentence_end])"
  by (simp add: ARTIFACT_PATTERNS_def bracketed_def paren_instructions_def whitespace_run_def
      sentence_end_def Plus_def)

lemma re_match_first:
  "\<not> nullable r \<Longrightarrow>
     re_match ic r s = (case matches ic r s of [] \<Rightarrow> None | t # _ \<Rightarrow> Some t)"
  using matches_length_less [of r _ ic s]
  by (auto simp add: re_match_def split: list.splits)

lemma star_greedy_hd:
  "star_greedy ic a s \<noteq> [] \<and> hd (star_greedy ic a s) = dropWhile (atom_match ic a) s"
  by (induction s) auto

lemma re_match_Plus:
  "re_match ic (Plus a) (c # cs) =
     (if atom_match ic a c then Some (dropWhile (atom_match ic a) cs) else None)"
proof (cases "atom_match ic a c")
  case True
  obtain t ts where l: "star_greedy ic a cs = t # ts"
    using star_greedy_hd [of ic a cs] by (cases "star_greedy ic a cs") auto
  then have t: "t = dropWhile (atom_match ic a) cs"
    using star_greedy_hd [of ic a cs] by simp
  have "length t \<le> length cs"
    unfolding t by (rule length_dropWhile_le)
  with True l t show ?thesis
    by (simp add: re_match_def Plus_def)
next
  case False
  then show ?thesis by (simp add: re_match_def Plus_def)
qed

lemma re_sub_no_match: "\<not> re_search ic r s \<Longrightarrow> re_sub ic r repl s = s"
  by (induction s) (auto simp add: re_sub.simps)

lemma remove_patterns_no_match:
  "list_all (\<lambda>p. \<not> re_search True p s) ps \<Longrightarrow> remove_patterns ps s = s"
  by (induction ps) (auto simp add: re_sub_no_match)

section \<open>Whitespace\<close>

lemma collapse_Cons:
  "re_sub False whitespace_run '' '' (c # cs) =
     (if is_space c then CHR '' '' # re_sub False whitespace_run '' '' (dropWhile is_space cs)
      else c # re_sub False whitespace_run '' '' cs)"
proof -
  have "atom_match False Space = is_space" by (rule ext) simp
  then show ?thesis
    by (simp add: re_sub.simps whitespace_run_def re_match_Plus length_dropWhile_le less_Suc_eq_le)
qed

declare re_sub.simps(2) [simp del]

lemma single_spaced_Cons:
  "single_spaced (c # r) \<longleftrightarrow>
     (is_space c \<longrightarrow> c = CHR '' '' \<and> (r = [] \<or> \<not> is_space (hd r))) \<and> single_spaced r"
  by (cases r) auto

lemma collapse_hd:
  "s \<noteq> [] \<Longrightarrow> \<not> is_space (hd s) \<Longrightarrow>
     re_sub False whitespace_run '' '' s \<noteq> [] \<and> hd (re_sub False whitespace_run '' '' s) = hd s"
  by (cases s) (simp_all add: collapse_Cons)

lemma dropWhile_id_hd: "xs \<noteq> [] \<Longrightarrow> \<not> P (hd xs) \<Longrightarrow> dropWhile P xs = xs"
  by (cases xs) auto

lemma dropWhile_hd: "dropWhile P s \<noteq> [] \<Longrightarrow> \<not> P (hd (dropWhile P s))"
  using hd_dropWhile by blast

lemma single_spaced_collapse: "single_spaced (re_sub False whitespace_run '' '' s)"
proof (induction s rule: length_induct)
  case (1 s)
  show ?case
  proof (cases s)
    case Nil
    then show ?thesis by simp
  next
    case (Cons c cs)
    show ?thesis
    proof (cases "is_space c")
      case True
      let ?d = "dropWhile is_space cs"
      have "length ?d < length s" using Cons by (simp add: length_dropWhile_le less_Suc_eq_le)
      with 1 have ih: "single_spaced (re_sub False whitespace_run '' '' ?d)" by blast
      have "re_sub False whitespace_run '' '' ?d = [] \<or>
            \<not> is_space (hd (re_sub False whitespace_run '' '' ?d))"
      proof (cases "?d = []")
        case True
        show ?thesis unfolding True by simp
      next
        case False
        then have "\<not> is_space (hd ?d)" by (rule dropWhile_hd)
        with False show ?thesis using collapse_hd [of ?d] by simp
      qed
      with True ih Cons show ?thesis
        by (simp add: collapse_Cons single_spaced_Cons)
    next
      case False
      have "single_spaced (re_sub False whitespace_run '' '' cs)" using 1 Cons by simp
      with False Cons show ?thesis by (simp add: collapse_Cons single_spaced_Cons)
    qed
  qed
qed

lemma collapse_single_spaced: "single_spaced s \<Longrightarrow> re_sub False whitespace_run '' '' s = s"
proof (induction s)
  case Nil
  then show ?case by simp
next
  case (Cons c cs)
  then have ss: "single_spaced cs" by (simp add: single_spaced_Cons)
  show ?case
  proof (cases "is_space c")
    case True
    with Cons.prems have c: "c = CHR '' ''" and n: "cs = [] \<or> \<not> is_space (hd cs)"
      by (simp_all add: single_spaced_Cons)
    from n have "dropWhile is_space cs = cs" by (cases cs) auto
    with True c Cons.IH [OF ss] show ?thesis by (simp add: collapse_Cons)
  next
    case False
    with Cons.IH [OF ss] show ?thesis by (simp add: collapse_Cons)
  qed
qed

lemma single_spaced_append: "single_spaced (xs @ ys) \<Longrightarrow> single_spaced xs \<and> single_spaced ys"
proof (induction xs)
  case Nil
  then show ?case by simp
next
  case (Cons x xs)
  then show ?case
    by (cases xs) (auto simp add: single_spaced_Cons)
qed

lemma single_spaced_snoc:
  "single_spaced xs \<Longrightarrow> \<not> is_space c \<Longrightarrow> single_spaced (xs @ [c])"
  by (induction xs) (auto simp add: single_spaced_Cons hd_append)

lemma single_spaced_space: "single_spaced s \<Longrightarrow> c \<in> set s \<Longrightarrow> is_space c \<Longrightarrow> c = CHR '' ''"
  by (induction s) (auto simp add: single_spaced_Cons)

lemma rev_dropWhile_rev:
  "xs = rev (dropWhile P (rev xs)) @ rev (takeWhile P (rev xs))"
proof -
  have "rev (dropWhile P (rev xs)) @ rev (takeWhile P (rev xs)) =
          rev (takeWhile P (rev xs) @ dropWhile P (rev xs))"
    by (simp only: rev_append)
  also have "\<dots> = xs"
    by (simp only: takeWhile_dropWhile_id rev_rev_ident)
  finally show ?thesis by simp
qed

lemma strip_suffix: "dropWhile is_space s = strip s @ rev (takeWhile is_space (rev (dropWhile is_space s)))"
  unfolding strip_def by (rule rev_dropWhile_rev)

lemma strip_decomp: "\<exists>pre post. s = pre @ strip s @ post"
proof -
  have "s = takeWhile is_space s @ dropWhile is_space s" by simp
  then have "s = takeWhile is_space s @ strip s @
                 rev (takeWhile is_space (rev (dropWhile is_space s)))"
    using strip_suffix [of s] by simp
  then show ?thesis by blast
qed

lemma single_spaced_strip: "single_spaced s \<Longrightarrow> single_spaced (strip s)"
proof -
  assume s: "single_spaced s"
  obtain pre post where "s = pre @ strip s @ post" using strip_decomp by blast
  with s have "single_spaced (pre @ strip s @ post)" by simp
  then show ?thesis using single_spaced_append by blast
qed

lemma stripped_strip: "stripped (strip s)"
proof (cases "strip s = []")
  case True
  then show ?thesis by (simp add: stripped_def)
next
  case False
  let ?d = "dropWhile is_space s" and ?e = "dropWhile is_space (rev (dropWhile is_space s))"
  from False have e: "?e \<noteq> []" by (simp add: strip_def)
  then have l: "\<not> is_space (hd ?e)" by (rule dropWhile_hd)
  have last: "last (strip s) = hd ?e" using e by (simp add: strip_def last_rev)
  have d: "?d \<noteq> []"
  proof
    assume a: "?d = []"
    have "?e = []" unfolding a by simp
    with e show False by blast
  qed
  then have hd_d: "\<not> is_space (hd ?d)" by (rule dropWhile_hd)
  have "hd ?d = hd (strip s)"
    using False strip_suffix [of s] by (metis hd_append2)
  with hd_d last l show ?thesis by (simp add: stripped_def)
qed

lemma strip_stripped: "stripped s \<Longrightarrow> strip s = s"
proof (cases s)
  case Nil
  then show ?thesis by (simp add: strip_def)
next
  case (Cons c cs)
  assume "stripped s"
  with Cons have h: "\<not> is_space (hd s)" and l: "\<not> is_space (last s)"
    by (simp_all add: stripped_def)
  from h Cons have a: "dropWhile is_space s = s" by simp
  have "dropWhile is_space (rev s) = rev s"
  proof (rule dropWhile_id_hd)
    show "rev s \<noteq> []" using Cons by simp
    show "\<not> is_space (hd (rev s))" unfolding hd_rev by (rule l)
  qed
  with a show ?thesis by (simp add: strip_def)
qed

lemma normalised_normalise: "normalised (normalise x)"
  by (simp add: normalised_def normalise_def Let_def single_spaced_strip single_spaced_collapse
      stripped_strip)

lemma normalise_fixed: "normalised s \<Longrightarrow> pattern_free s \<Longrightarrow> normalise s = s"
  by (simp add: normalised_def pattern_free_def normalise_def Let_def remove_patterns_no_match
      re_sub_no_match collapse_single_spaced strip_stripped)

section \<open>First sentence and first line\<close>

declare re_split_from.simps(2) [simp del]

lemma re_match_sentence_end:
  "re_match False sentence_end (c # cs) =
     (if sentence_char c then None else Some (dropWhile (\<lambda>c. \<not> sentence_char c) cs))"
proof -
  have "atom_match False (OneOf ''.!?'') = (\<lambda>c. \<not> sentence_char c)"
    by (rule ext) (simp add: sentence_char_def)
  then show ?thesis by (simp add: sentence_end_def re_match_Plus)
qed

lemma re_split_from_hd:
  "re_split_from False sentence_end acc s \<noteq> [] \<and>
   hd (re_split_from False sentence_end acc s) = rev acc @ takeWhile sentence_char s"
proof (induction s arbitrary: acc)
  case Nil
  then show ?case by simp
next
  case (Cons c cs)
  show ?case
  proof (cases "sentence_char c")
    case True
    with Cons [of "c # acc"] show ?thesis
      by (simp add: re_split_from.simps(2) re_match_sentence_end)
  next
    case False
    then show ?thesis
      by (simp add: re_split_from.simps(2) re_match_sentence_end length_dropWhile_le
          less_Suc_eq_le)
  qed
qed

lemma first_sentence_eq:
  "first_sentence s =
     (if length (takeWhile sentence_char s) > 20 then takeWhile sentence_char s @ ''.'' else s)"
  using re_split_from_hd [of "[]" s] by (simp add: first_sentence_def re_split_def Let_def)

lemma takeWhile_sentence_snoc:
  "takeWhile sentence_char (takeWhile sentence_char s @ ''.'') = takeWhile sentence_char s"
proof -
  have "takeWhile sentence_char (takeWhile sentence_char s @ ''.'') =
          takeWhile sentence_char s @ takeWhile sentence_char ''.''"
    by (rule takeWhile_append2) (auto dest: set_takeWhileD)
  also have "takeWhile sentence_char ''.'' = []"
    by (simp add: sentence_char_def)
  finally show ?thesis by simp
qed

lemma first_sentence_idem: "first_sentence (first_sentence s) = first_sentence s"
  by (simp add: first_sentence_eq takeWhile_sentence_snoc)

lemma not_space_dot: "\<not> is_space CHR ''.''"
  by code_simp

lemma single_spaced_takeWhile: "single_spaced s \<Longrightarrow> single_spaced (takeWhile P s)"
  using single_spaced_append [of "takeWhile P s" "dropWhile P s"] by simp

lemma normalised_first_sentence:
  assumes "normalised s"
  shows "normalised (first_sentence s)"
proof (cases "length (takeWhile sentence_char s) > 20")
  case False
  with assms show ?thesis by (simp add: first_sentence_eq)
next
  case True
  let ?s0 = "takeWhile sentence_char s"
  from True have ne: "?s0 \<noteq> []" by auto
  then have sne: "s \<noteq> []" by auto
  have "hd ?s0 = hd s" using ne by (cases s) (auto split: if_splits)
  moreover have "\<not> is_space (hd s)" using assms sne by (simp add: normalised_def stripped_def)
  ultimately have h: "\<not> is_space (hd (?s0 @ ''.''))" using ne by simp
  have "single_spaced ?s0" using assms by (simp add: normalised_def single_spaced_takeWhile)
  then have "single_spaced (?s0 @ ''.'')" by (simp add: single_spaced_snoc not_space_dot)
  with h True show ?thesis
    by (simp add: first_sentence_eq normalised_def stripped_def not_space_dot)
qed

lemma is_space_newline: "is_space CHR ''\<newline>''"
  by code_simp

lemma split_lines_one: "CHR ''\<newline>'' \<notin> set s \<Longrightarrow> split_lines s = [s]"
  by (induction s) auto

lemma normalised_no_newline: "normalised s \<Longrightarrow> CHR ''\<newline>'' \<notin> set s"
  using single_spaced_space [of s "CHR ''\<newline>''"] is_space_newline
  by (auto simp add: normalised_def)

lemma long_lines_normalised:
  "normalised s \<Longrightarrow> long_lines s = (if s \<noteq> [] \<and> length s > 20 then [s] else [])"
  by (simp add: long_lines_def split_lines_one normalised_no_newline strip_stripped
      normalised_def)

lemma first_line_normalised:
  "normalised s \<Longrightarrow> first_line s t = t \<or> first_line s t = s"
  by (simp add: first_line_def long_lines_normalised Let_def)

lemma clean_of_normalised:
  assumes "normalised s" and "pattern_free s"
  shows "clean_content s = first_sentence s \<or> clean_content s = s"
proof -
  have n: "normalise s = s" using assms by (rule normalise_fixed)
  have fs: "strip (first_sentence s) = first_sentence s"
    using normalised_first_sentence [OF assms(1)] by (simp add: normalised_def strip_stripped)
  have ss: "strip s = s" using assms(1) by (simp add: normalised_def strip_stripped)
  from first_line_normalised [OF assms(1), of "first_sentence s"] show ?thesis
    by (auto simp add: clean_content_def Let_def n fs ss)
qed

lemma clean_fixed:
  assumes "normalised s" and "pattern_free s" and "first_sentence s = s"
  shows "clean_content s = s"
  using clean_of_normalised [OF assms(1,2)] assms(3) by auto

lemma clean_without_first_line:
  assumes "\<not> took_first_line x"
  shows "clean_content x = first_sentence (normalise x)"
proof -
  have "first_line x (first_sentence (normalise x)) = first_sentence (normalise x)"
    using assms by (auto simp add: took_first_line_def first_line_def Let_def)
  moreover have "strip (first_sentence (normalise x)) = first_sentence (normalise x)"
    using normalised_first_sentence [OF normalised_normalise [of x]]
    by (simp add: normalised_def strip_stripped)
  ultimately show ?thesis by (simp add: clean_content_def Let_def)
qed

section \<open>The retry loops\<close>

lemma post_acceptable_nonempty: "post_acceptable c \<Longrightarrow> c \<noteq> []"
  by (simp add: post_acceptable_def)

lemma comment_acceptable_nonempty: "comment_acceptable c \<Longrightarrow> c \<noteq> []"
  by (simp add: comment_acceptable_def)

lemma post_two_attempts:
  assumes "generate mm (post_prompt topic) 400 model_id 0 = Inr raw0"
    and "\<not> post_acceptable (clean_content raw0)"
    and "generate mm (post_prompt topic) 400 model_id 1 = Inr raw1"
  shows "generate_post_content mm topic model_id =
           Inr (if clean_content raw1 \<noteq> [] then take MAX_POST_LEN (clean_content raw1)
                else post_fallback topic)"
  using assms by (auto simp add: generate_post_content_def Let_def dest: post_acceptable_nonempty)

lemma post_first_attempt:
  assumes "generate mm (post_prompt topic) 400 model_id 0 = Inr raw0"
    and "post_acceptable (clean_content raw0)"
  shows "generate_post_content mm topic model_id = Inr (take MAX_POST_LEN (clean_content raw0))"
  using assms by (simp add: generate_post_content_def)

lemma post_raises_first:
  assumes "generate mm (post_prompt topic) 400 model_id 0 = Inl e"
  shows "generate_post_content mm topic model_id = Inl e"
  using assms by (simp add: generate_post_content_def)

lemma post_raises_second:
  assumes "generate mm (post_prompt topic) 400 model_id 0 = Inr raw0"
    and "\<not> post_acceptable (clean_content raw0)"
    and "generate mm (post_prompt topic) 400 model_id 1 = Inl e"
  shows "generate_post_content mm topic model_id = Inl e"
  using assms by (simp add: generate_post_content_def)

lemma comment_two_attempts:
  assumes "generate mm (comment_prompt post_content p) 200 model_id 0 = Inr raw0"
    and "\<not> comment_acceptable (clean_content raw0)"
    and "generate mm (comment_prompt post_content p) 200 model_id 1 = Inr raw1"
  shows "generate_comment_content mm post_content p model_id =
           Inr (if clean_content raw1 \<noteq> [] then take MAX_COMMENT_LEN (clean_content raw1)
                else comment_fallback)"
  using assms by (auto simp add: generate_comment_content_def Let_def dest: comment_acceptable_nonempty)

lemma comment_first_attempt:
  assumes "generate mm (comment_prompt post_content p) 200 model_id 0 = Inr raw0"
    and "comment_acceptable (clean_content raw0)"
  shows "generate_comment_content mm post_content p model_id =
           Inr (take MAX_COMMENT_LEN (clean_content raw0))"
  using assms by (simp add: generate_comment_content_def)

lemma comment_raises_first:
  assumes "generate mm (comment_prompt post_content p) 200 model_id 0 = Inl e"
  shows "generate_comment_content mm post_content p model_id = Inl e"
  using assms by (simp add: generate_comment_content_def)

lemma comment_raises_second:
  assumes "generate mm (comment_prompt post_content p) 200 model_id 0 = Inr raw0"
    and "\<not> comment_acceptable (clean_content raw0)"
    and "generate mm (comment_prompt post_content p) 200 model_id 1 = Inl e"
  shows "generate_comment_content mm post_content p model_id = Inl e"
  using assms by (simp add: generate_comment_content_def)

lemma generate_failing [simp]:
  "generate failing_manager prompt n 0 attempt = Inl GenerationError"
  by (simp add: generate_def failing_manager_def failing_model_def)

lemma generate_scripted [simp]:
  "generate (scripted_manager [a, b]) prompt n 0 0 = Inr a"
  "generate (scripted_manager [a, b]) prompt n 0 (Suc 0) = Inr b"
  by (simp_all add: generate_def scripted_manager_def scripted_model_def)

lemma generate_scripted_one [simp]:
  "generate (scripted_manager [a]) prompt n 0 0 = Inr a"
  "generate (scripted_manager [a]) prompt n 0 (Suc 0) = Inl GenerationError"
  by (simp_all add: generate_def scripted_manager_def scripted_model_def)

lemma any_in_Cons: "any_in (w # ws) s \<longleftrightarrow> sublist w s \<or> any_in ws s"
  by (simp add: any_in_def)

lemma any_in_Nil: "any_in [] s \<longleftrightarrow> False"
  by (simp add: any_in_def)

section \<open>C1: fallback guarantee\<close>

text \<open>
  C1, as stated, fails: neither \<open>generate_post_content\<close> nor \<open>generate_comment_content\<close>
  has a \<open>try\<close>, so with a model whose calls raise, the exception leaves the function.
\<close>

theorem generation_raises_counterexample:
  "generate_post_content failing_manager ''cats'' 0 = Inl GenerationError \<and>
   generate_comment_content failing_manager ''I like cats'' alex 0 = Inl GenerationError"
  by (simp add: post_raises_first comment_raises_first)

text \<open>
  C1, amended. When the model calls that the loop makes return, the function returns
  non-empty text: the first accepted cleaned attempt cut to 750 characters, else the
  second attempt's cleaned text cut to 750 characters when that is non-empty, else the
  fixed fallback string. When a model call that the loop makes raises, the first one or,
  after a rejected first attempt, the second one, the exception reaches the caller;
  \<open>_generate_single_comment\<close> catches it and leaves the database as it was.
\<close>

theorem generation_fallback:
  "(generate mm (post_prompt topic) 400 model_id 0 = Inr raw0 \<and>
    (\<not> post_acceptable (clean_content raw0) \<longrightarrow>
       generate mm (post_prompt topic) 400 model_id 1 = Inr raw1) \<longrightarrow>
    (\<exists>text. generate_post_content mm topic model_id = Inr text \<and> text \<noteq> [] \<and>
       text = (if post_acceptable (clean_content raw0)
               then take MAX_POST_LEN (clean_content raw0)
               else if clean_content raw1 \<noteq> [] then take MAX_POST_LEN (clean_content raw1)
               else ''I've been thinking about '' @ topic @ '' lately...''))) \<and>
   (generate mm (comment_prompt post_content p) 200 model_id 0 = Inr raw0' \<and>
    (\<not> comment_acceptable (clean_content raw0') \<longrightarrow>
       generate mm (comment_prompt post_content p) 200 model_id 1 = Inr raw1') \<longrightarrow>
    (\<exists>text. generate_comment_content mm post_content p model_id = Inr text \<and> text \<noteq> [] \<and>
       text = (if comment_acceptable (clean_content raw0')
               then take MAX_COMMENT_LEN (clean_content raw0')
               else if clean_content raw1' \<noteq> [] then take MAX_COMMENT_LEN (clean_content raw1')
               else ''Interesting post!''))) \<and>
   (generate mm (post_prompt topic) 400 model_id 0 = Inl e \<longrightarrow>
      generate_post_content mm topic model_id = Inl e) \<and>
   (generate mm (comment_prompt post_content p) 200 model_id 0 = Inl e \<longrightarrow>
      generate_comment_content mm post_content p model_id = Inl e \<and>
      generate_single_comment mm db post_id post_content p model_id = db) \<and>
   (generate mm (post_prompt topic) 400 model_id 0 = Inr raw0 \<and>
    \<not> post_acceptable (clean_content raw0) \<and>
    generate mm (post_prompt topic) 400 model_id 1 = Inl e \<longrightarrow>
      generate_post_content mm topic model_id = Inl e) \<and>
   (generate mm (comment_prompt post_content p) 200 model_id 0 = Inr raw0' \<and>
    \<not> comment_acceptable (clean_content raw0') \<and>
    generate mm (comment_prompt post_content p) 200 model_id 1 = Inl e \<longrightarrow>
      generate_comment_content mm post_content p model_id = Inl e \<and>
      generate_single_comment mm db post_id post_content p model_id = db)"
proof (intro conjI impI)
  assume a: "generate mm (post_prompt topic) 400 model_id 0 = Inr raw0 \<and>
    (\<not> post_acceptable (clean_content raw0) \<longrightarrow>
       generate mm (post_prompt topic) 400 model_id 1 = Inr raw1)"
  show "\<exists>text. generate_post_content mm topic model_id = Inr text \<and> text \<noteq> [] \<and>
       text = (if post_acceptable (clean_content raw0)
               then take MAX_POST_LEN (clean_content raw0)
               else if clean_content raw1 \<noteq> [] then take MAX_POST_LEN (clean_content raw1)
               else ''I've been thinking about '' @ topic @ '' lately...'')"
  proof (cases "post_acceptable (clean_content raw0)")
    case True
    with a show ?thesis
      by (simp add: post_first_attempt post_acceptable_nonempty MAX_POST_LEN_def)
  next
    case False
    with a show ?thesis
      by (simp add: post_two_attempts post_fallback_def MAX_POST_LEN_def)
  qed
next
  assume a: "generate mm (comment_prompt post_content p) 200 model_id 0 = Inr raw0' \<and>
    (\<not> comment_acceptable (clean_content raw0') \<longrightarrow>
       generate mm (comment_prompt post_content p) 200 model_id 1 = Inr raw1')"
  show "\<exists>text. generate_comment_content mm post_content p model_id = Inr text \<and> text \<noteq> [] \<and>
       text = (if comment_acceptable (clean_content raw0')
               then take MAX_COMMENT_LEN (clean_content raw0')
               else if clean_content raw1' \<noteq> [] then take MAX_COMMENT_LEN (clean_content raw1')
               else ''Interesting post!'')"
  proof (cases "comment_acceptable (clean_content raw0')")
    case True
    with a show ?thesis
      by (simp add: comment_first_attempt comment_acceptable_nonempty MAX_COMMENT_LEN_def)
  next
    case False
    with a show ?thesis
      by (simp add: comment_two_attempts comment_fallback_def MAX_COMMENT_LEN_def)
  qed
next
  assume "generate mm (post_prompt topic) 400 model_id 0 = Inl e"
  then show "generate_post_content mm topic model_id = Inl e"
    by (rule post_raises_first)
next
  assume "generate mm (comment_prompt post_content p) 200 model_id 0 = Inl e"
  then show "generate_comment_content mm post_content p model_id = Inl e"
    by (rule comment_raises_first)
next
  assume "generate mm (comment_prompt post_content p) 200 model_id 0 = Inl e"
  then show "generate_single_comment mm db post_id post_content p model_id = db"
    by (simp add: generate_single_comment_def comment_raises_first)
next
  assume "generate mm (post_prompt topic) 400 model_id 0 = Inr raw0 \<and>
    \<not> post_acceptable (clean_content raw0) \<and>
    generate mm (post_prompt topic) 400 model_id 1 = Inl e"
  then show "generate_post_content mm topic model_id = Inl e"
    by (simp add: post_raises_second)
next
  assume "generate mm (comment_prompt post_content p) 200 model_id 0 = Inr raw0' \<and>
    \<not> comment_acceptable (clean_content raw0') \<and>
    generate mm (comment_prompt post_content p) 200 model_id 1 = Inl e"
  then show "generate_comment_content mm post_content p model_id = Inl e"
    by (simp add: comment_raises_second)
next
  assume "generate mm (comment_prompt post_content p) 200 model_id 0 = Inr raw0' \<and>
    \<not> comment_acceptable (clean_content raw0') \<and>
    generate mm (comment_prompt post_content p) 200 model_id 1 = Inl e"
  then show "generate_single_comment mm db post_id post_content p model_id = db"
    by (simp add: generate_single_comment_def comment_raises_second)
qed

text \<open>
  C1, runs of the amended statement: an unacceptable first attempt and an accepted
  second one for a post, two unacceptable attempts (the second empty after cleaning) for
  a comment, a model that raises on its first call, and a model that returns a rejected
  text and raises on its second call.
\<close>

theorem generation_fallback_witness:
  "(\<exists>text. generate_post_content
             (scripted_manager [''Sure thing.'', ''I love hiking in the mountains every weekend.''])
             ''hiking'' 0 = Inr text \<and> text \<noteq> []) \<and>
   (\<exists>text. generate_comment_content (scripted_manager [''Include: this'', ''[meta]'']) ''I like cats''
             alex 0 = Inr text \<and> text \<noteq> []) \<and>
   generate_post_content failing_manager ''hiking'' 0 = Inl GenerationError \<and>
   generate_comment_content failing_manager ''I like cats'' alex 0 = Inl GenerationError \<and>
   generate_post_content (scripted_manager [''Sure thing.'']) ''hiking'' 0 = Inl GenerationError \<and>
   generate_comment_content (scripted_manager [''Sure thing.'']) ''I like cats'' alex 0 =
     Inl GenerationError \<and>
   generate_single_comment (scripted_manager [''Sure thing.'']) empty_db 7 ''I like cats'' alex 0 =
     empty_db"
proof -
  have c: "clean_content ''Sure thing.'' = ''Sure thing.''"
    by code_simp
  have r: "\<not> post_acceptable ''Sure thing.''" "\<not> comment_acceptable ''Sure thing.''"
    by code_simp+
  show ?thesis
    using
      generation_fallback [of
        "scripted_manager [''Sure thing.'', ''I love hiking in the mountains every weekend.'']"
        "''hiking''" 0 "''Sure thing.''" "''I love hiking in the mountains every weekend.''"]
      generation_fallback [of "scripted_manager [''Include: this'', ''[meta]'']" _ 0 _ _
        "''I like cats''" alex "''Include: this''" "''[meta]''"]
      generation_fallback [of failing_manager "''hiking''" 0 _ _ "''I like cats''" alex _ _
        GenerationError]
      generation_fallback [of "scripted_manager [''Sure thing.'']" "''hiking''" 0
        "''Sure thing.''" _ "''I like cats''" alex "''Sure thing.''" _ GenerationError
        empty_db 7]
    by (simp add: c r)
qed

section \<open>C2: fan-out\<close>

lemma submit_loop_ok:
  assumes "models mm \<noteq> []" and "\<not> is_shutdown ex"
  shows "submit_loop mm post_id post_content (enumerate n ps) ex futures =
           Inr (futures @ [length (submitted ex) ..< length (submitted ex) + length ps],
                ex\<lparr>submitted := submitted ex @
                     map (make_task post_id post_content (length (models mm))) (enumerate n ps)\<rparr>)"
  using assms(2)
proof (induction ps arbitrary: n ex futures)
  case Nil
  then show ?case by simp
next
  case (Cons p ps)
  let ?t = "make_task post_id post_content (length (models mm)) (n, p)"
  let ?ex = "ex\<lparr>submitted := submitted ex @ [?t]\<rparr>"
  have sh: "\<not> is_shutdown ?ex" using Cons.prems by simp
  have "submit_loop mm post_id post_content (enumerate n (p # ps)) ex futures =
          submit_loop mm post_id post_content (enumerate (Suc n) ps) ?ex
            (futures @ [length (submitted ex)])"
    using assms(1) Cons.prems by (simp add: submit_def make_task_def)
  also have "\<dots> = Inr ((futures @ [length (submitted ex)]) @
                 [length (submitted ?ex) ..< length (submitted ?ex) + length ps],
               ?ex\<lparr>submitted := submitted ?ex @
                     map (make_task post_id post_content (length (models mm)))
                       (enumerate (Suc n) ps)\<rparr>)"
    by (rule Cons.IH [OF sh])
  finally show ?case
    by (simp add: upt_conv_Cons del: upt_Suc)
qed

text \<open>
  C2. With at least one model and an executor that has not been shut down,
  \<open>submit_post_comments\<close> returns one future per persona, appends exactly these tasks to
  the executor's work, in persona order, and the task of the persona at ordinal \<open>i\<close> has
  \<open>device_id = i mod R\<close>, where \<open>R\<close> is the number of models.
\<close>

theorem fan_out_complete:
  assumes "models (pcg_model_manager self) \<noteq> []"
    and "\<not> is_shutdown (pcg_executor self)"
  shows "\<exists>futures self'.
           submit_post_comments self post_id post_content = Inr (futures, self') \<and>
           length futures = length (pcg_personas self) \<and>
           submitted (pcg_executor self') =
             submitted (pcg_executor self) @ map (\<lambda>f. submitted (pcg_executor self') ! f) futures \<and>
           (\<forall>i < length (pcg_personas self).
              submitted (pcg_executor self') ! (futures ! i) =
                \<lparr>task_post_id = post_id, task_post_content = post_content,
                 task_persona = pcg_personas self ! i,
                 task_device_id = i mod length (models (pcg_model_manager self))\<rparr>) \<and>
           map (\<lambda>f. task_device_id (submitted (pcg_executor self') ! f)) futures =
             map (\<lambda>i. i mod length (models (pcg_model_manager self)))
               [0 ..< length (pcg_personas self)]"
proof -
  let ?mm = "pcg_model_manager self" and ?ex = "pcg_executor self" and ?ps = "pcg_personas self"
  let ?old = "submitted ?ex"
  let ?new = "map (make_task post_id post_content (length (models ?mm))) (enumerate 0 ?ps)"
  let ?futures = "[length ?old ..< length ?old + length ?ps]"
  let ?ex' = "?ex\<lparr>submitted := ?old @ ?new\<rparr>"
  let ?self' = "self\<lparr>pcg_executor := ?ex'\<rparr>"
  have run: "submit_post_comments self post_id post_content = Inr (?futures, ?self')"
    using submit_loop_ok [OF assms, of post_id post_content 0 ?ps "[]"]
    by (simp add: submit_post_comments_def)
  have len: "length ?new = length ?ps" by simp
  have nth_new: "(?old @ ?new) ! (?futures ! i) = ?new ! i" if "i < length ?ps" for i
    using that by (simp add: nth_append)
  have new_i: "?new ! i = \<lparr>task_post_id = post_id, task_post_content = post_content,
                 task_persona = ?ps ! i, task_device_id = i mod length (models ?mm)\<rparr>"
    if "i < length ?ps" for i
    using that by (simp add: make_task_def nth_enumerate_eq)
  have map_new: "map (\<lambda>f. (?old @ ?new) ! f) ?futures = ?new"
    by (rule nth_equalityI) (simp_all add: nth_append)
  have dev: "map (\<lambda>f. task_device_id ((?old @ ?new) ! f)) ?futures =
               map (\<lambda>i. i mod length (models ?mm)) [0 ..< length ?ps]"
    by (rule nth_equalityI) (simp_all add: nth_append make_task_def nth_enumerate_eq)
  show ?thesis
    apply (rule exI [of _ ?futures], rule exI [of _ ?self'])
    using run map_new dev nth_new new_i by simp
qed

text \<open>C2, the example: the four default personas and two models give \<open>[0, 1, 0, 1]\<close>.\<close>

theorem fan_out_complete_witness:
  "\<exists>futures self'.
     submit_post_comments demo_generator 7 ''I like cats'' = Inr (futures, self') \<and>
     length futures = 4 \<and>
     map (\<lambda>f. task_device_id (submitted (pcg_executor self') ! f)) futures = [0, 1, 0, 1]"
proof -
  have m: "models (pcg_model_manager demo_generator) \<noteq> []"
    by (simp add: demo_generator_def failing_manager_def)
  have s: "\<not> is_shutdown (pcg_executor demo_generator)"
    by (simp add: demo_generator_def)
  have l: "length (pcg_personas demo_generator) = 4"
    "length (models (pcg_model_manager demo_generator)) = 2"
    by (simp_all add: demo_generator_def default_personas_def failing_manager_def)
  have u: "map (\<lambda>i. i mod 2) [0 ..< 4] = [0, 1, 0, Suc 0 :: nat]"
    by (simp add: upt_rec)
  from fan_out_complete [OF m s, of 7 "''I like cats''"] show ?thesis
    unfolding l u by auto
qed

section \<open>C3: resource exclusivity\<close>

lemma count_list_update:
  "t < length xs \<Longrightarrow>
     count_list (xs[t := v]) x + (if xs ! t = x then 1 else 0) =
     count_list xs x + (if v = x then 1 else 0)"
proof (induction xs arbitrary: t)
  case Nil
  then show ?case by simp
next
  case (Cons a xs)
  show ?case
  proof (cases t)
    case 0
    then show ?thesis by simp
  next
    case (Suc t')
    with Cons.prems have "t' < length xs" by simp
    from Cons.IH [OF this] Suc show ?thesis by (auto split: if_splits)
  qed
qed

lemma count_list_replicate: "count_list (replicate k a) x = (if a = x then k else 0)"
  by (induction k) auto

lemma lock_invariant_initial: "lock_invariant (initial n k)"
  by (simp add: lock_invariant_def in_flight_def initial_def count_list_replicate)

lemma lock_invariant_step:
  assumes "step s s'" and "lock_invariant s"
  shows "lock_invariant s'"
  using assms
proof (cases rule: step.cases)
  case (call t model_id)
  have "in_flight s' m = in_flight s m" for m
    using count_list_update [of t "threads s" "Waiting model_id" "Running m"] call
    by (simp add: in_flight_def)
  with assms(2) call show ?thesis by (simp add: lock_invariant_def)
next
  case (acquire t model_id)
  have "in_flight s' m = in_flight s m + (if m = model_id then 1 else 0)" for m
    using count_list_update [of t "threads s" "Running model_id" "Running m"] acquire
    by (auto simp add: in_flight_def)
  with assms(2) acquire show ?thesis
    by (auto simp add: lock_invariant_def nth_list_update)
next
  case (release t model_id)
  have c: "in_flight s' m + (if m = model_id then 1 else 0) = in_flight s m" for m
    using count_list_update [of t "threads s" Idle "Running m"] release
    by (auto simp add: in_flight_def)
  show ?thesis
    unfolding lock_invariant_def
  proof
    fix m
    from assms(2) have i: "in_flight s m = (if m < length (locks s) \<and> locks s ! m then 1 else 0)"
      by (simp add: lock_invariant_def)
    from c [of m] i release show
      "in_flight s' m = (if m < length (locks s') \<and> locks s' ! m then 1 else 0)"
      by (cases "m = model_id") (auto simp add: nth_list_update split: if_splits)
  qed
qed

lemma reachable_invariant: "reachable n k s \<Longrightarrow> lock_invariant s"
  by (induction rule: reachable.induct) (auto intro: lock_invariant_initial lock_invariant_step)

lemma reachable_both_running: "reachable 2 2 both_running"
proof -
  let ?s0 = "initial 2 2"
  let ?s1 = "\<lparr>locks = [False, False], threads = [Waiting 0, Idle]\<rparr>"
  let ?s2 = "\<lparr>locks = [False, False], threads = [Waiting 0, Waiting 1]\<rparr>"
  let ?s3 = "\<lparr>locks = [True, False], threads = [Running 0, Waiting 1]\<rparr>"
  have e: "?s0 = \<lparr>locks = [False, False], threads = [Idle, Idle]\<rparr>"
    by (simp add: initial_def numeral_2_eq_2)
  have "step ?s0 ?s1" unfolding e using step.call [of 0 "\<lparr>locks = [False, False], threads = [Idle, Idle]\<rparr>" 0] by simp
  moreover have "step ?s1 ?s2" using step.call [of 1 ?s1 1] by simp
  moreover have "step ?s2 ?s3" using step.acquire [of 0 ?s2 0] by simp
  moreover have "step ?s3 both_running" using step.acquire [of 1 ?s3 1] by (simp add: both_running_def)
  ultimately show ?thesis
    using reachable.reach_start [of 2 2] by (blast intro: reachable.reach_step)
qed

text \<open>
  C3. In every state that the threads can reach from the initial one, whatever the number
  of models, the number of threads and the order of their steps, at most one thread is
  inside the \<open>with\<close> block of each model. Calls on different models do overlap: the
  state with one thread inside the block of model 0 and another inside that of model 1
  is reachable.
\<close>

theorem resource_exclusive:
  "(reachable n k s \<longrightarrow> (\<forall>model_id. in_flight s model_id \<le> 1)) \<and>
   (reachable 2 2 both_running \<and> in_flight both_running 0 = 1 \<and> in_flight both_running 1 = 1)"
proof -
  have "in_flight s m \<le> 1" if "reachable n k s" for m
    using reachable_invariant [OF that] by (simp add: lock_invariant_def)
  moreover have "in_flight both_running 0 = 1 \<and> in_flight both_running 1 = 1"
    by (simp add: in_flight_def both_running_def)
  ultimately show ?thesis using reachable_both_running by blast
qed

lemma reachable_contended: "reachable 2 3 contended"
proof -
  let ?s0 = "\<lparr>locks = [False, False], threads = [Idle, Idle, Idle]\<rparr>"
  let ?s1 = "\<lparr>locks = [False, False], threads = [Waiting 0, Idle, Idle]\<rparr>"
  let ?s2 = "\<lparr>locks = [False, False], threads = [Waiting 0, Waiting 0, Idle]\<rparr>"
  let ?s3 = "\<lparr>locks = [False, False], threads = [Waiting 0, Waiting 0, Waiting 0]\<rparr>"
  have e: "initial 2 3 = ?s0"
    by (simp add: initial_def numeral_2_eq_2 numeral_3_eq_3)
  have "step ?s0 ?s1" using step.call [of 0 ?s0 0] by simp
  moreover have "step ?s1 ?s2" using step.call [of 1 ?s1 0] by simp
  moreover have "step ?s2 ?s3" using step.call [of 2 ?s2 0] by simp
  moreover have "step ?s3 contended" using step.acquire [of 0 ?s3 0] by (simp add: contended_def)
  ultimately show ?thesis
    using reachable.reach_start [of 2 3] unfolding e by (blast intro: reachable.reach_step)
qed

text \<open>
  C3, on three threads that all target model 0: in a reachable state one of them is
  inside the block and the two others wait.
\<close>

theorem resource_exclusive_witness:
  "reachable 2 3 contended \<and> in_flight contended 0 \<le> 1 \<and> in_flight contended 1 \<le> 1 \<and>
   in_flight contended 0 = 1 \<and> count_list (threads contended) (Waiting 0) = 2"
proof -
  have r: "reachable 2 3 contended" by (rule reachable_contended)
  have "in_flight contended 0 \<le> 1 \<and> in_flight contended 1 \<le> 1"
    using resource_exclusive [of 2 3 contended] r by blast
  moreover have "in_flight contended 0 = 1 \<and> count_list (threads contended) (Waiting 0) = 2"
    by (simp add: in_flight_def contended_def)
  ultimately show ?thesis using r by blast
qed

section \<open>C4: the sanitizer example\<close>

text \<open>
  C4, as stated, fails: the cleaned text is not
  \<open>I love hiking in the mountains every weekend.\<close>
\<close>

theorem clean_example_counterexample:
  "clean_content ''Sure! No hashtags. I love hiking in the mountains every weekend.''
     \<noteq> ''I love hiking in the mountains every weekend.''"
  by code_simp

text \<open>
  C4, amended. \<open>No hashtags.\<close> is removed; \<open>Sure!\<close> matches no pattern and stays, and
  as the first sentence segment \<open>Sure\<close> has 4 characters, the text is not cut to its
  first sentence.
\<close>

theorem clean_example:
  "clean_content ''Sure! No hashtags. I love hiking in the mountains every weekend.''
     = ''Sure! I love hiking in the mountains every weekend.''"
  by code_simp

section \<open>C5: idempotence\<close>

text \<open>
  C5, as stated, fails. The second line of the input brings the word \<open>include\<close> into
  the cleaned text, so \<open>clean_content\<close> returns the first long line of the original as
  it is; that line matches no pattern and contains no instruction word, and cleaning it
  again appends a full stop.
\<close>

theorem clean_idempotent_counterexample:
  "pattern_free
     (clean_content ''My weekend hike was the best thing all month\<newline>Please include a photo'') \<and>
   \<not> any_in instruction_words
     (lower (clean_content ''My weekend hike was the best thing all month\<newline>Please include a photo'')) \<and>
   clean_content
     (clean_content ''My weekend hike was the best thing all month\<newline>Please include a photo'')
     \<noteq> clean_content ''My weekend hike was the best thing all month\<newline>Please include a photo''"
proof -
  have c: "clean_content ''My weekend hike was the best thing all month\<newline>Please include a photo''
             = ''My weekend hike was the best thing all month''"
    by code_simp
  have d: "clean_content ''My weekend hike was the best thing all month''
             = ''My weekend hike was the best thing all month.''"
    by code_simp
  have p: "pattern_free ''My weekend hike was the best thing all month''"
    by code_simp
  have m: "\<not> any_in instruction_words (lower ''My weekend hike was the best thing all month'')"
    by code_simp
  show ?thesis
    unfolding c d using p m by simp
qed

text \<open>
  C5, amended. For every input \<open>x\<close> such that no removal pattern matches in
  \<open>clean_content x\<close> and such that cleaning \<open>x\<close> does not replace the text by the first
  long line of the original, \<open>clean_content (clean_content x) = clean_content x\<close>.
\<close>

theorem clean_idempotent:
  assumes "pattern_free (clean_content x)" and "\<not> took_first_line x"
  shows "clean_content (clean_content x) = clean_content x"
proof -
  have c: "clean_content x = first_sentence (normalise x)"
    using assms(2) by (rule clean_without_first_line)
  have n: "normalised (clean_content x)"
    unfolding c by (rule normalised_first_sentence [OF normalised_normalise])
  have f: "first_sentence (clean_content x) = clean_content x"
    unfolding c by (rule first_sentence_idem)
  from n assms(1) f show ?thesis by (rule clean_fixed)
qed

text \<open>C5, on two inputs, the second one cut to its first sentence.\<close>

theorem clean_idempotent_witness:
  "pattern_free
     (clean_content ''Sure! No hashtags. I love hiking in the mountains every weekend.'') \<and>
   \<not> took_first_line ''Sure! No hashtags. I love hiking in the mountains every weekend.'' \<and>
   clean_content
     (clean_content ''Sure! No hashtags. I love hiking in the mountains every weekend.'') =
     ''Sure! I love hiking in the mountains every weekend.'' \<and>
   pattern_free (clean_content ''I really love my dogs. They are so cute!'') \<and>
   \<not> took_first_line ''I really love my dogs. They are so cute!'' \<and>
   clean_content (clean_content ''I really love my dogs. They are so cute!'') =
     ''I really love my dogs.''"
proof -
  have c: "clean_content ''Sure! No hashtags. I love hiking in the mountains every weekend.''
             = ''Sure! I love hiking in the mountains every weekend.''"
    "clean_content ''I really love my dogs. They are so cute!'' = ''I really love my dogs.''"
    by code_simp+
  have p: "pattern_free ''Sure! I love hiking in the mountains every weekend.''"
    "pattern_free ''I really love my dogs.''"
    by code_simp+
  have t: "\<not> took_first_line ''Sure! No hashtags. I love hiking in the mountains every weekend.''"
    "\<not> took_first_line ''I really love my dogs. They are so cute!''"
    by code_simp+
  show ?thesis
    using clean_idempotent [of "''Sure! No hashtags. I love hiking in the mountains every weekend.''"]
      clean_idempotent [of "''I really love my dogs. They are so cute!''"]
    by (simp add: c p t)
qed

section \<open>C6: acceptance after cleaning again\<close>

lemma sublist_snoc_notin:
  assumes "sublist m (xs @ [c])" and "c \<notin> set m"
  shows "sublist m xs"
  using assms by (auto simp add: sublist_append prefix_Cons sublist_Cons_right elim: suffixE)

lemma lower_char_dot: "lower_char CHR ''.'' = CHR ''.''"
  by code_simp

lemma any_in_first_sentence:
  assumes "\<forall>m \<in> set ms. CHR ''.'' \<notin> set m"
    and "any_in ms (lower (takeWhile sentence_char s @ ''.''))"
  shows "any_in ms (lower s)"
proof -
  from assms(2) obtain m where m: "m \<in> set ms"
    and sub: "sublist m (lower (takeWhile sentence_char s) @ ''.'')"
    by (auto simp add: any_in_def list_ex_iff lower_def lower_char_dot)
  from assms(1) m have "CHR ''.'' \<notin> set m" by blast
  with sub have "sublist m (lower (takeWhile sentence_char s))"
    by (simp add: sublist_snoc_notin)
  then have "sublist m (lower (takeWhile sentence_char s) @ lower (dropWhile sentence_char s))"
    by (auto simp add: sublist_append)
  then have "sublist m (lower s)"
    by (simp add: lower_def flip: map_append)
  with m show ?thesis by (auto simp add: any_in_def list_ex_iff)
qed

lemma comment_acceptable_first_sentence:
  assumes "comment_acceptable s"
  shows "comment_acceptable (first_sentence s)"
proof (cases "length (takeWhile sentence_char s) > 20")
  case False
  with assms show ?thesis by (simp add: first_sentence_eq)
next
  case True
  have "\<not> any_in comment_artifacts (lower (takeWhile sentence_char s @ ''.''))"
    using any_in_first_sentence [of comment_artifacts s] assms
    by (auto simp add: comment_acceptable_def comment_artifacts_def)
  with True show ?thesis by (simp add: first_sentence_eq comment_acceptable_def)
qed

lemma post_acceptable_first_sentence:
  assumes "post_acceptable s"
    and "length (takeWhile sentence_char s) \<le> 20 \<or> 30 \<le> length (takeWhile sentence_char s)"
  shows "post_acceptable (first_sentence s)"
proof (cases "length (takeWhile sentence_char s) > 20")
  case False
  with assms show ?thesis by (simp add: first_sentence_eq)
next
  case True
  have "\<not> any_in post_artifacts (lower (takeWhile sentence_char s @ ''.''))"
    using any_in_first_sentence [of post_artifacts s] assms
    by (auto simp add: post_acceptable_def post_artifacts_def)
  with True assms(2) show ?thesis by (simp add: first_sentence_eq post_acceptable_def)
qed

text \<open>
  C6, as stated, fails. An accepted post of 52 characters is cut to its first sentence of
  22 characters, which is too short; an accepted comment made of three sentences that
  start with \<open>Be\<close> is removed entirely by the pattern \<open>Be .{0,30}\.\<close>
\<close>

theorem acceptance_preserved_counterexample:
  "post_acceptable ''I really love my dogs. They are so cute and playful!'' \<and>
   \<not> post_acceptable (clean_content ''I really love my dogs. They are so cute and playful!'') \<and>
   comment_acceptable ''Be kind. Be good. Be happy.'' \<and>
   \<not> comment_acceptable (clean_content ''Be kind. Be good. Be happy.'')"
proof -
  have c: "clean_content ''I really love my dogs. They are so cute and playful!''
             = ''I really love my dogs.''"
    "clean_content ''Be kind. Be good. Be happy.'' = []"
    by code_simp+
  have a: "post_acceptable ''I really love my dogs. They are so cute and playful!''"
    "\<not> post_acceptable ''I really love my dogs.''"
    "comment_acceptable ''Be kind. Be good. Be happy.''"
    "\<not> comment_acceptable []"
    by code_simp+
  show ?thesis unfolding c using a by simp
qed

text \<open>
  C6, amended. For every string \<open>s\<close> in which no removal pattern matches and whose
  whitespace is already single spaces with none at either end: if the comment check
  accepts \<open>s\<close>, it accepts \<open>clean_content s\<close>; if the post check accepts \<open>s\<close> and the
  first sentence segment of \<open>s\<close> has at most 20 or at least 30 characters, it accepts
  \<open>clean_content s\<close>.
\<close>

theorem acceptance_preserved:
  assumes "normalised s" and "pattern_free s"
  shows "(comment_acceptable s \<longrightarrow> comment_acceptable (clean_content s)) \<and>
         (post_acceptable s \<and>
          (length (takeWhile sentence_char s) \<le> 20 \<or> 30 \<le> length (takeWhile sentence_char s))
            \<longrightarrow> post_acceptable (clean_content s))"
  using clean_of_normalised [OF assms] comment_acceptable_first_sentence [of s]
    post_acceptable_first_sentence [of s]
  by auto

text \<open>
  C6, on a text that stays as it is and on a post that is cut to a first sentence of 47
  characters.
\<close>

theorem acceptance_preserved_witness:
  "normalised ''Sure! I love hiking in the mountains every weekend.'' \<and>
   pattern_free ''Sure! I love hiking in the mountains every weekend.'' \<and>
   comment_acceptable ''Sure! I love hiking in the mountains every weekend.'' \<and>
   post_acceptable ''Sure! I love hiking in the mountains every weekend.'' \<and>
   length (takeWhile sentence_char ''Sure! I love hiking in the mountains every weekend.'') \<le> 20 \<and>
   comment_acceptable (clean_content ''Sure! I love hiking in the mountains every weekend.'') \<and>
   post_acceptable (clean_content ''Sure! I love hiking in the mountains every weekend.'') \<and>
   normalised ''What a view from the top of this mountain today. Wow.'' \<and>
   pattern_free ''What a view from the top of this mountain today. Wow.'' \<and>
   post_acceptable ''What a view from the top of this mountain today. Wow.'' \<and>
   30 \<le> length (takeWhile sentence_char ''What a view from the top of this mountain today. Wow.'') \<and>
   post_acceptable (clean_content ''What a view from the top of this mountain today. Wow.'')"
proof -
  have h1: "normalised ''Sure! I love hiking in the mountains every weekend.''"
    "pattern_free ''Sure! I love hiking in the mountains every weekend.''"
    "comment_acceptable ''Sure! I love hiking in the mountains every weekend.''"
    "post_acceptable ''Sure! I love hiking in the mountains every weekend.''"
    "length (takeWhile sentence_char ''Sure! I love hiking in the mountains every weekend.'') \<le> 20"
    by code_simp+
  have h2: "normalised ''What a view from the top of this mountain today. Wow.''"
    "pattern_free ''What a view from the top of this mountain today. Wow.''"
    "post_acceptable ''What a view from the top of this mountain today. Wow.''"
    "30 \<le> length (takeWhile sentence_char ''What a view from the top of this mountain today. Wow.'')"
    by code_simp+
  show ?thesis
    using acceptance_preserved [OF h1(1,2)] acceptance_preserved [OF h2(1,2)] h1 h2
    by blast
qed

section \<open>C7: the acceptance check\<close>

text \<open>
  C7, as stated, fails at the boundary: a non-empty text of exactly 30 characters without
  any marker is rejected for a post, and one of exactly 15 characters for a comment.
\<close>

theorem acceptance_boundary_counterexample:
  "''Thirty characters are in here!'' \<noteq> [] \<and>
   length ''Thirty characters are in here!'' \<ge> 30 \<and>
   \<not> any_in post_artifacts (lower ''Thirty characters are in here!'') \<and>
   \<not> post_acceptable ''Thirty characters are in here!'' \<and>
   ''Fifteen chars!!'' \<noteq> [] \<and>
   length ''Fifteen chars!!'' \<ge> 15 \<and>
   \<not> any_in comment_artifacts (lower ''Fifteen chars!!'') \<and>
   \<not> comment_acceptable ''Fifteen chars!!''"
  by code_simp

text \<open>
  C7, amended. The check rejects exactly the texts of at most 30 characters (posts) or at
  most 15 characters (comments), which include the empty text, and the texts whose
  lowered form contains a marker of the list of their kind.
\<close>

theorem acceptance_exact:
  "(\<not> post_acceptable cleaned \<longleftrightarrow>
      length cleaned \<le> 30 \<or>
      sublist ''no hashtags'' (lower cleaned) \<or> sublist ''include'' (lower cleaned) \<or>
      sublist ''use at least'' (lower cleaned) \<or> sublist ''write a comment'' (lower cleaned) \<or>
      sublist ''post:'' (lower cleaned)) \<and>
   (\<not> comment_acceptable cleaned \<longleftrightarrow>
      length cleaned \<le> 15 \<or>
      sublist ''include'' (lower cleaned) \<or> sublist ''use'' (lower cleaned) \<or>
      sublist ''write a comment'' (lower cleaned))"
  by (auto simp add: post_acceptable_def comment_acceptable_def post_artifacts_def
      comment_artifacts_def any_in_Cons any_in_Nil)

section \<open>C8: truncation after acceptance\<close>

text \<open>
  C8. When the cleaned text of the first attempt passes the check, or that of the second
  attempt after a rejected first one, the function returns the first 750 characters of
  that cleaned text; the check is made on the whole cleaned text.
\<close>

theorem truncation_after_acceptance:
  "(generate mm (post_prompt topic) 400 model_id 0 = Inr raw0 \<and>
    post_acceptable (clean_content raw0) \<longrightarrow>
      generate_post_content mm topic model_id = Inr (take 750 (clean_content raw0))) \<and>
   (generate mm (post_prompt topic) 400 model_id 0 = Inr raw0 \<and>
    \<not> post_acceptable (clean_content raw0) \<and>
    generate mm (post_prompt topic) 400 model_id 1 = Inr raw1 \<and>
    post_acceptable (clean_content raw1) \<longrightarrow>
      generate_post_content mm topic model_id = Inr (take 750 (clean_content raw1))) \<and>
   (generate mm (comment_prompt post_content p) 200 model_id 0 = Inr raw0' \<and>
    comment_acceptable (clean_content raw0') \<longrightarrow>
      generate_comment_content mm post_content p model_id =
        Inr (take 750 (clean_content raw0'))) \<and>
   (generate mm (comment_prompt post_content p) 200 model_id 0 = Inr raw0' \<and>
    \<not> comment_acceptable (clean_content raw0') \<and>
    generate mm (comment_prompt post_content p) 200 model_id 1 = Inr raw1' \<and>
    comment_acceptable (clean_content raw1') \<longrightarrow>
      generate_comment_content mm post_content p model_id =
        Inr (take 750 (clean_content raw1')))"
  by (auto simp add: post_first_attempt comment_first_attempt post_two_attempts
      comment_two_attempts MAX_POST_LEN_def MAX_COMMENT_LEN_def
      dest: post_acceptable_nonempty comment_acceptable_nonempty)

text \<open>C8, runs with an accepted first attempt and with an accepted second attempt.\<close>

theorem truncation_after_acceptance_witness:
  "generate_post_content
     (scripted_manager [''I love hiking in the mountains every weekend.'', ''Sure thing.''])
     ''hiking'' 0 = Inr ''I love hiking in the mountains every weekend.'' \<and>
   generate_post_content
     (scripted_manager [''Sure thing.'', ''I love hiking in the mountains every weekend.''])
     ''hiking'' 0 = Inr ''I love hiking in the mountains every weekend.'' \<and>
   generate_comment_content
     (scripted_manager [''What a view from the top!'', ''Sure thing.''])
     ''I like hiking'' alex 0 = Inr ''What a view from the top.'' \<and>
   generate_comment_content
     (scripted_manager [''Sure thing.'', ''What a view from the top!''])
     ''I like hiking'' alex 0 = Inr ''What a view from the top.''"
proof -
  have c: "clean_content ''I love hiking in the mountains every weekend.'' =
             ''I love hiking in the mountains every weekend.''"
    "clean_content ''Sure thing.'' = ''Sure thing.''"
    "clean_content ''What a view from the top!'' = ''What a view from the top.''"
    by code_simp+
  have a: "post_acceptable ''I love hiking in the mountains every weekend.''"
    "\<not> post_acceptable ''Sure thing.''"
    "comment_acceptable ''What a view from the top.''"
    "\<not> comment_acceptable ''Sure thing.''"
    by code_simp+
  show ?thesis
    using
      truncation_after_acceptance [of
        "scripted_manager [''I love hiking in the mountains every weekend.'', ''Sure thing.'']"
        "''hiking''" 0 "''I love hiking in the mountains every weekend.''" _
        "''I like hiking''" alex "''Sure thing.''" "''What a view from the top!''"]
      truncation_after_acceptance [of
        "scripted_manager [''Sure thing.'', ''I love hiking in the mountains every weekend.'']"
        "''hiking''" 0 "''Sure thing.''" "''I love hiking in the mountains every weekend.''"
        "''I like hiking''" alex "''What a view from the top!''" _]
      truncation_after_acceptance [of
        "scripted_manager [''What a view from the top!'', ''Sure thing.'']"
        "''hiking''" 0 "''Sure thing.''" _
        "''I like hiking''" alex "''What a view from the top!''" _]
      truncation_after_acceptance [of
        "scripted_manager [''Sure thing.'', ''What a view from the top!'']"
        "''hiking''" 0 "''Sure thing.''" _
        "''I like hiking''" alex "''Sure thing.''" "''What a view from the top!''"]
    by (simp add: c a)
qed

section \<open>C9: stored length\<close>

text \<open>
  C9. \<open>add_post\<close> and \<open>add_comment\<close> store the first 750 characters of the content:
  the stored content has at most 750 characters, and content of at most 750 characters
  is stored unchanged.
\<close>

theorem stored_length_bound:
  "(case add_post db content author is_ai of
      (rowid, db') \<Rightarrow>
        posts db' = posts db @
          [\<lparr>post_row_id = rowid, post_row_content = take 750 content,
            post_row_author = author, is_ai_generated = is_ai\<rparr>] \<and>
        length (post_row_content (last (posts db'))) \<le> 750 \<and>
        (length content \<le> 750 \<longrightarrow> post_row_content (last (posts db')) = content)) \<and>
   (let db' = add_comment db post_id content author
    in comments db' = comments db @
          [\<lparr>comment_row_id = last_comment_id db + 1, comment_post_id = post_id,
            comment_content = take 750 content, comment_author = author\<rparr>] \<and>
       length (comment_content (last (comments db'))) \<le> 750 \<and>
       (length content \<le> 750 \<longrightarrow> comment_content (last (comments db')) = content))"
  by (simp add: add_post_def add_comment_def Let_def MAX_POST_LEN_def MAX_COMMENT_LEN_def)

text \<open>C9, on a short content and on one of 751 characters.\<close>

theorem stored_length_bound_witness:
  "post_row_content (last (posts (snd (add_post empty_db ''I like cats'' ''me'' False)))) =
     ''I like cats'' \<and>
   length (post_row_content (last (posts (snd (add_post empty_db (replicate 751 CHR ''a'') ''me'' False))))) = 750 \<and>
   comment_content (last (comments (add_comment empty_db 1 ''Me too'' ''me''))) = ''Me too'' \<and>
   length (comment_content (last (comments (add_comment empty_db 1 (replicate 751 CHR ''a'') ''me'')))) = 750"
  using stored_length_bound [of empty_db "''I like cats''" "''me''" False 1]
    stored_length_bound [of empty_db "''Me too''" "''me''" False 1]
    stored_length_bound [of empty_db "replicate 751 CHR ''a''" "''me''" False 1]
  by (simp add: Let_def split: prod.splits)

section \<open>C10: the marker \<open>use\<close>\<close>

text \<open>
  C10. The comment check rejects every cleaned text whose lowered form contains
  \<open>use\<close> anywhere; when both attempts contain it, \<open>generate_comment_content\<close> falls
  back to the second attempt's cleaned text, cut to 750 characters.
\<close>

theorem use_rejected:
  "(sublist ''use'' (lower cleaned) \<longrightarrow> \<not> comment_acceptable cleaned) \<and>
   (generate mm (comment_prompt post_content p) 200 model_id 0 = Inr raw0 \<and>
    generate mm (comment_prompt post_content p) 200 model_id 1 = Inr raw1 \<and>
    sublist ''use'' (lower (clean_content raw0)) \<and>
    sublist ''use'' (lower (clean_content raw1)) \<longrightarrow>
      generate_comment_content mm post_content p model_id =
        Inr (take 750 (clean_content raw1)))"
proof -
  have rej: "\<not> comment_acceptable c" if "sublist ''use'' (lower c)" for c
    using that by (simp add: comment_acceptable_def comment_artifacts_def any_in_Cons)
  have ne: "c \<noteq> []" if "sublist ''use'' (lower c)" for c
    using that by (auto simp add: lower_def)
  show ?thesis
    using rej ne by (auto simp add: comment_two_attempts MAX_COMMENT_LEN_def)
qed

text \<open>
  C10, on comments that are otherwise clean: \<open>because\<close>, \<open>house\<close> and \<open>user\<close>
  contain the marker.
\<close>

theorem use_rejected_witness:
  "\<not> comment_acceptable ''I like this because it reminds me of my old house.'' \<and>
   \<not> comment_acceptable ''Great photo, what a lovely user experience.'' \<and>
   length ''I like this because it reminds me of my old house.'' > 15 \<and>
   \<not> any_in [''include'', ''write a comment'']
       (lower ''I like this because it reminds me of my old house.'') \<and>
   generate_comment_content
     (scripted_manager [''I like this because it reminds me of my old house.'',
                        ''Great photo, what a lovely user experience!''])
     ''My old house'' alex 0 = Inr ''Great photo, what a lovely user experience.''"
proof -
  have c: "clean_content ''I like this because it reminds me of my old house.'' =
             ''I like this because it reminds me of my old house.''"
    "clean_content ''Great photo, what a lovely user experience!'' =
       ''Great photo, what a lovely user experience.''"
    by code_simp+
  have u: "sublist ''use'' (lower ''I like this because it reminds me of my old house.'')"
    "sublist ''use'' (lower ''Great photo, what a lovely user experience.'')"
    by code_simp+
  have o: "length ''I like this because it reminds me of my old house.'' > 15"
    "\<not> any_in [''include'', ''write a comment'']
       (lower ''I like this because it reminds me of my old house.'')"
    by code_simp+
  show ?thesis
    using
      use_rejected [of "''I like this because it reminds me of my old house.''"
        "scripted_manager [''I like this because it reminds me of my old house.'',
                           ''Great photo, what a lovely user experience!'']"
        "''My old house''" alex 0 "''I like this because it reminds me of my old house.''"
        "''Great photo, what a lovely user experience!''"]
      use_rejected [of "''Great photo, what a lovely user experience.''"]
    by (simp add: c u o)
qed

end
